theory Spec2Isabelle
  imports Complex_Main
begin

section \<open>Sharded application of array functions (alphafold3/model/components/mapping.py)\<close>

text \<open>
  The module applies a function to a batch in shards of a fixed size and writes the shard
  results into zero-initialised output buffers. Python exceptions are values of
  \<open>error\<close>; a call returns its outcome together with the trace of the shard invocations
  it performed.
\<close>

subsection \<open>Errors and the tracing result type\<close>

datatype error =
  NotImplementedError | AssertionError | ValueError | IndexError | TypeError
  | ZeroDivisionError

definition bind_err :: "error + 'a \<Rightarrow> ('a \<Rightarrow> error + 'b) \<Rightarrow> error + 'b" where
  "bind_err m f = (case m of Inl e \<Rightarrow> Inl e | Inr x \<Rightarrow> f x)"

subsection \<open>Pytrees\<close>

text \<open>
  A pytree is a nested container (tuple, list) with values at the leaves. The positional
  arguments \<open>*args\<close> of a call are the children of one \<open>Node\<close>.
\<close>

datatype 'a pytree = Leaf 'a | Node "'a pytree list"

fun tree_leaves :: "'a pytree \<Rightarrow> 'a list" where
  "tree_leaves (Leaf x) = [x]"
| "tree_leaves (Node ts) = concat (map tree_leaves ts)"

text \<open>\<open>jax.tree_util.tree_structure\<close>: the tree without its leaf values.\<close>

definition tree_structure :: "'a pytree \<Rightarrow> unit pytree" where
  "tree_structure t = map_pytree (\<lambda>_. ()) t"

text \<open>
  \<open>jax.tree.map\<close> over two trees of the same structure; a structure mismatch is the
  library's ValueError, an error of the leaf function is propagated.
\<close>

fun tree_map2 :: "('a \<Rightarrow> 'b \<Rightarrow> error + 'c) \<Rightarrow> 'a pytree \<Rightarrow> 'b pytree \<Rightarrow> error + 'c pytree"
  and trees_map2 :: "('a \<Rightarrow> 'b \<Rightarrow> error + 'c) \<Rightarrow> 'a pytree list \<Rightarrow> 'b pytree list
      \<Rightarrow> error + 'c pytree list" where
  "tree_map2 f (Leaf x) (Leaf y) = bind_err (f x y) (\<lambda>z. Inr (Leaf z))"
| "tree_map2 f (Node xs) (Node ys) = bind_err (trees_map2 f xs ys) (\<lambda>zs. Inr (Node zs))"
| "tree_map2 f (Leaf x) (Node ys) = Inl ValueError"
| "tree_map2 f (Node xs) (Leaf y) = Inl ValueError"
| "trees_map2 f [] [] = Inr []"
| "trees_map2 f (x # xs) (y # ys) =
     bind_err (tree_map2 f x y) (\<lambda>z. bind_err (trees_map2 f xs ys) (\<lambda>zs. Inr (z # zs)))"
| "trees_map2 f [] (y # ys) = Inl ValueError"
| "trees_map2 f (x # xs) [] = Inl ValueError"

definition tree_map3 ::
  "('a \<Rightarrow> 'b \<Rightarrow> 'c \<Rightarrow> error + 'd) \<Rightarrow> 'a pytree \<Rightarrow> 'b pytree \<Rightarrow> 'c pytree \<Rightarrow> error + 'd pytree"
  where
  "tree_map3 f t1 t2 t3 =
     bind_err (tree_map2 (\<lambda>x y. Inr (x, y)) t1 t2)
       (\<lambda>t12. tree_map2 (\<lambda>xy z. f (fst xy) (snd xy) z) t12 t3)"

text \<open>
  \<open>jax.tree_util.tree_unflatten\<close>: rebuild a tree of the given structure from a list of
  leaves, consumed left to right; the list must have exactly as many leaves as the
  structure.
\<close>

fun unflatten_from :: "unit pytree \<Rightarrow> 'a list \<Rightarrow> error + ('a pytree \<times> 'a list)"
  and unflatten_all :: "unit pytree list \<Rightarrow> 'a list \<Rightarrow> error + ('a pytree list \<times> 'a list)"
  where
  "unflatten_from (Leaf u) [] = Inl ValueError"
| "unflatten_from (Leaf u) (x # xs) = Inr (Leaf x, xs)"
| "unflatten_from (Node ts) xs =
     bind_err (unflatten_all ts xs) (\<lambda>r. Inr (Node (fst r), snd r))"
| "unflatten_all [] xs = Inr ([], xs)"
| "unflatten_all (t # ts) xs =
     bind_err (unflatten_from t xs)
       (\<lambda>r. bind_err (unflatten_all ts (snd r)) (\<lambda>rs. Inr (fst r # fst rs, snd rs)))"

definition tree_unflatten :: "unit pytree \<Rightarrow> 'a list \<Rightarrow> error + 'a pytree" where
  "tree_unflatten treedef xs =
     bind_err (unflatten_from treedef xs)
       (\<lambda>r. if snd r = [] then Inr (fst r) else Inl ValueError)"

text \<open>
  \<open>jax.api_util.flatten_axes\<close>: the axis specification is a tree prefix of the value
  tree, with integers and \<open>None\<close> at its leaves; every leaf of the specification is
  repeated for all value leaves below it. A specification that is not a prefix is a
  ValueError.
\<close>

fun flatten_axes :: "unit pytree \<Rightarrow> int option pytree \<Rightarrow> error + int option list"
  and flatten_axes_list :: "unit pytree list \<Rightarrow> int option pytree list \<Rightarrow> error + int option list"
  where
  "flatten_axes t (Leaf a) = Inr (replicate (length (tree_leaves t)) a)"
| "flatten_axes (Node ts) (Node as) = flatten_axes_list ts as"
| "flatten_axes (Leaf u) (Node as) = Inl ValueError"
| "flatten_axes_list [] [] = Inr []"
| "flatten_axes_list (t # ts) (a # as) =
     bind_err (flatten_axes t a)
       (\<lambda>xs. bind_err (flatten_axes_list ts as) (\<lambda>ys. Inr (xs @ ys)))"
| "flatten_axes_list [] (a # as) = Inl ValueError"
| "flatten_axes_list (t # ts) [] = Inl ValueError"

subsection \<open>Arrays\<close>

text \<open>
  An n-dimensional array is a scalar or a list of sub-arrays, stored with the shape of
  its sub-arrays so that the shape of an array with a zero-length axis is still known.
  The element type stands for the dtype, and \<open>0\<close> is what \<open>jnp.zeros\<close> fills in.
\<close>

datatype 'a ndarray = Scalar 'a | Array "nat list" "'a ndarray list"

fun shape :: "'a ndarray \<Rightarrow> nat list" where
  "shape (Scalar v) = []"
| "shape (Array es xs) = length xs # es"

fun wf_array :: "'a ndarray \<Rightarrow> bool" where
  "wf_array (Scalar v) = True"
| "wf_array (Array es xs) = list_all (\<lambda>x. wf_array x \<and> shape x = es) xs"

fun zeros :: "nat list \<Rightarrow> ('a::zero) ndarray" where
  "zeros [] = Scalar 0"
| "zeros (d # ds) = Array ds (replicate d (zeros ds))"

text \<open>Python indexing and slicing of a tuple (here: of a shape).\<close>

definition py_index :: "'a list \<Rightarrow> int \<Rightarrow> error + 'a" where
  "py_index xs i =
     (let n = int (length xs); j = (if i < 0 then i + n else i)
      in if 0 \<le> j \<and> j < n then Inr (xs ! nat j) else Inl IndexError)"

definition py_slice_bound :: "'a list \<Rightarrow> int \<Rightarrow> nat" where
  "py_slice_bound xs i =
     (let n = int (length xs) in nat (min n (max 0 (if i < 0 then i + n else i))))"

definition py_take :: "'a list \<Rightarrow> int \<Rightarrow> 'a list" where
  "py_take xs i = take (py_slice_bound xs i) xs"

definition py_drop :: "'a list \<Rightarrow> int \<Rightarrow> 'a list" where
  "py_drop xs i = drop (py_slice_bound xs i) xs"

definition py_max :: "int list \<Rightarrow> error + int" where
  "py_max xs = (case xs of [] \<Rightarrow> Inl ValueError | y # ys \<Rightarrow> Inr (foldl max y ys))"

text \<open>
  \<open>jnp.arange(start, stop, step)\<close> for a non-zero step: \<open>ceil((stop - start) / step)\<close>
  values, none when that is not positive.
\<close>

definition arange :: "int \<Rightarrow> int \<Rightarrow> int \<Rightarrow> int list" where
  "arange start stop step =
     map (\<lambda>k. start + int k * step) [0 ..< nat (- ((start - stop) div step))]"

text \<open>
  The library's slicing primitives. An axis may be negative and is canonicalised; a
  start index that is negative is taken from the end, and the start is then clamped so
  that the slice lies within the operand, as \<open>jax.lax.dynamic_slice\<close> and
  \<open>jax.lax.dynamic_update_slice\<close> document.
\<close>

definition canonicalize_axis :: "int \<Rightarrow> nat \<Rightarrow> error + nat" where
  "canonicalize_axis axis ndim =
     (if - int ndim \<le> axis \<and> axis < int ndim
      then Inr (nat (if axis < 0 then axis + int ndim else axis))
      else Inl ValueError)"

definition clamp_index :: "int \<Rightarrow> nat \<Rightarrow> nat \<Rightarrow> nat" where
  "clamp_index start n d =
     nat (max 0 (min (if start < 0 then start + int d else start) (int d - int n)))"

fun slice_axis :: "nat \<Rightarrow> nat \<Rightarrow> nat \<Rightarrow> 'a ndarray \<Rightarrow> 'a ndarray" where
  "slice_axis a k n (Scalar v) = Scalar v"
| "slice_axis 0 k n (Array es xs) = Array es (take n (drop k xs))"
| "slice_axis (Suc a) k n (Array es xs) =
     Array (es[a := min n (es ! a - k)]) (map (slice_axis a k n) xs)"

definition dynamic_slice_in_dim :: "'a ndarray \<Rightarrow> int \<Rightarrow> int \<Rightarrow> int \<Rightarrow> error + 'a ndarray" where
  "dynamic_slice_in_dim operand start_index slice_size axis =
     bind_err (canonicalize_axis axis (length (shape operand)))
       (\<lambda>a. let d = shape operand ! a in
          if slice_size < 0 \<or> int d < slice_size then Inl TypeError
          else Inr (slice_axis a (clamp_index start_index (nat slice_size) d)
                      (nat slice_size) operand))"

fun update_slice :: "int list \<Rightarrow> 'a ndarray \<Rightarrow> 'a ndarray \<Rightarrow> 'a ndarray"
  and update_slices :: "int list \<Rightarrow> 'a ndarray list \<Rightarrow> 'a ndarray list \<Rightarrow> 'a ndarray list"
  where
  "update_slice is (Scalar u) x = Scalar u"
| "update_slice [] (Array ues us) x = x"
| "update_slice (i # is) (Array ues us) (Scalar v) = Scalar v"
| "update_slice (i # is) (Array ues us) (Array es xs) =
     (let k = clamp_index i (length us) (length xs)
      in Array es (take k xs @ update_slices is us (drop k xs)))"
| "update_slices is [] xs = xs"
| "update_slices is (u # us) [] = []"
| "update_slices is (u # us) (x # xs) = update_slice is u x # update_slices is us xs"

definition dynamic_update_slice_in_dim ::
  "'a ndarray \<Rightarrow> 'a ndarray \<Rightarrow> int \<Rightarrow> int \<Rightarrow> error + 'a ndarray" where
  "dynamic_update_slice_in_dim operand update start_index axis =
     bind_err (canonicalize_axis axis (length (shape operand)))
       (\<lambda>a. if length (shape update) = length (shape operand)
               \<and> list_all2 (\<le>) (shape update) (shape operand)
             then Inr (update_slice ((replicate (length (shape operand)) 0)[a := start_index])
                         update operand)
             else Inl TypeError)"

subsection \<open>Calls that leave a trace\<close>

text \<open>
  The trace records what the shard executor does: every invocation of the sequential
  loop primitive \<open>hk.scan\<close> with its index range, and every real application of the
  function to a slice of the arguments (slice start, slice size and the sliced
  arguments). Shape probes run under \<open>hk.eval_shape\<close> and leave no trace.
\<close>

datatype 'a event =
  Scan "int list"
  | Apply int int "'a ndarray pytree"

type_synonym ('a, 'r) run = "(error + 'r) \<times> 'a event list"

type_synonym 'a kwargs = "(string \<times> 'a ndarray pytree) list"

type_synonym 'a callable = "'a ndarray pytree \<Rightarrow> 'a kwargs \<Rightarrow> ('a, 'a ndarray pytree) run"

definition run_ok :: "'r \<Rightarrow> ('a, 'r) run" where
  "run_ok r = (Inr r, [])"

definition run_raise :: "error \<Rightarrow> ('a, 'r) run" where
  "run_raise e = (Inl e, [])"

definition run_lift :: "error + 'r \<Rightarrow> ('a, 'r) run" where
  "run_lift m = (m, [])"

definition run_emit :: "'a event \<Rightarrow> ('a, unit) run" where
  "run_emit ev = (Inr (), [ev])"

definition run_bind :: "('a, 'r) run \<Rightarrow> ('r \<Rightarrow> ('a, 's) run) \<Rightarrow> ('a, 's) run" where
  "run_bind m f =
     (case m of
        (Inl e, evs) \<Rightarrow> (Inl e, evs)
      | (Inr x, evs) \<Rightarrow> (case f x of (r, evs') \<Rightarrow> (r, evs @ evs')))"

text \<open>
  \<open>hk.eval_shape\<close>: the shapes of what the computation returns, without performing it.
  An error of the traced computation is raised.
\<close>

definition eval_shape :: "('a, 'a ndarray pytree) run \<Rightarrow> ('a, nat list pytree) run" where
  "eval_shape m =
     (case m of
        (Inl e, evs) \<Rightarrow> run_raise e
      | (Inr out, evs) \<Rightarrow> run_ok (map_pytree shape out))"

text \<open>
  \<open>hk.scan\<close>: the loop body is applied to the carried value and each element of the
  sequence in turn. The executor's body returns no per-step output.
\<close>

fun scan_loop :: "('c \<Rightarrow> 'i \<Rightarrow> ('a, 'c) run) \<Rightarrow> 'c \<Rightarrow> 'i list \<Rightarrow> ('a, 'c) run" where
  "scan_loop f carry [] = run_ok carry"
| "scan_loop f carry (x # xs) = run_bind (f carry x) (\<lambda>carry'. scan_loop f carry' xs)"

definition hk_scan :: "('c \<Rightarrow> int \<Rightarrow> ('a, 'c) run) \<Rightarrow> 'c \<Rightarrow> int list \<Rightarrow> ('a, 'c) run" where
  "hk_scan f init xs = run_bind (run_emit (Scan xs)) (\<lambda>_. scan_loop f init xs)"

subsection \<open>The helpers of the module\<close>

text \<open>
  \<open>PROXY\<close> is the module's sentinel object for a broadcast argument. The functions
  \<open>_maybe_slice\<close>, \<open>_maybe_get_size\<close> and \<open>_expand_axes\<close> are written here without their
  leading underscore.
\<close>

datatype axis = PROXY | Axis int

definition maybe_slice :: "'a ndarray \<Rightarrow> int \<Rightarrow> int \<Rightarrow> axis \<Rightarrow> error + 'a ndarray" where
  "maybe_slice array i slice_size axis =
     (case axis of
        PROXY \<Rightarrow> Inr array
      | Axis a \<Rightarrow> dynamic_slice_in_dim array i slice_size a)"

definition maybe_get_size :: "'a ndarray \<Rightarrow> axis \<Rightarrow> error + int" where
  "maybe_get_size array axis =
     (case axis of
        PROXY \<Rightarrow> Inr (- 1)
      | Axis a \<Rightarrow> bind_err (py_index (shape array) a) (\<lambda>d. Inr (int d)))"

definition expand_axes :: "int option pytree \<Rightarrow> 'v pytree \<Rightarrow> error + axis pytree" where
  "expand_axes axes values =
     (let values_tree_def = tree_structure values in
      bind_err (flatten_axes values_tree_def axes)
        (\<lambda>flat_axes.
           tree_unflatten values_tree_def
             (map (\<lambda>x. case x of None \<Rightarrow> PROXY | Some a \<Rightarrow> Axis a) flat_axes)))"

subsection \<open>The shard plan\<close>

text \<open>
  The three quantities \<open>mapped_fn\<close> computes from the batch size \<open>in_size\<close> and the
  shard size: Python's \<open>//\<close> and \<open>%\<close> are floor division and its remainder, as \<open>div\<close> and
  \<open>mod\<close> on \<open>int\<close> are.
\<close>

definition num_extra_shards :: "int \<Rightarrow> int \<Rightarrow> int" where
  "num_extra_shards in_size shard_size = (in_size - 1) div shard_size"

definition last_shard_size :: "int \<Rightarrow> int \<Rightarrow> int" where
  "last_shard_size in_size shard_size =
     (let last_shard_size = in_size mod shard_size
      in if last_shard_size = 0 then shard_size else last_shard_size)"

definition slice_starts :: "int \<Rightarrow> int \<Rightarrow> int list" where
  "slice_starts in_size shard_size = arange 0 (in_size - shard_size + 1) shard_size"

subsection \<open>The shard executor\<close>

definition apply_fun_to_slice ::
  "'a callable \<Rightarrow> 'a ndarray pytree \<Rightarrow> axis pytree \<Rightarrow> 'a kwargs \<Rightarrow> int \<Rightarrow> int
     \<Rightarrow> ('a, 'a ndarray pytree) run" where
  "apply_fun_to_slice fun args in_axes' kwargs slice_start slice_size =
     run_bind
       (run_lift (tree_map2 (\<lambda>array axis. maybe_slice array slice_start slice_size axis)
          args in_axes'))
       (\<lambda>input_slice.
          run_bind (run_emit (Apply slice_start slice_size input_slice))
            (\<lambda>_. fun input_slice kwargs))"

definition make_output_shape :: "int \<Rightarrow> axis \<Rightarrow> nat list \<Rightarrow> nat list \<Rightarrow> error + nat list" where
  "make_output_shape num_extra axis shard_shape remainder_shape =
     (case axis of
        PROXY \<Rightarrow> Inl TypeError
      | Axis a \<Rightarrow>
          bind_err (py_index shard_shape a)
            (\<lambda>d. bind_err (py_index remainder_shape a)
               (\<lambda>r. Inr (py_take shard_shape a @ [nat (int d * num_extra + int r)]
                          @ py_drop shard_shape (a + 1)))))"

definition update_slice_in_dim ::
  "int \<Rightarrow> 'a ndarray \<Rightarrow> 'a ndarray \<Rightarrow> axis \<Rightarrow> error + 'a ndarray" where
  "update_slice_in_dim i full_array update axis =
     (case axis of
        PROXY \<Rightarrow> Inl TypeError
      | Axis a \<Rightarrow> dynamic_update_slice_in_dim full_array update i a)"

definition compute_shard ::
  "'a callable \<Rightarrow> 'a ndarray pytree \<Rightarrow> axis pytree \<Rightarrow> 'a kwargs \<Rightarrow> axis pytree
     \<Rightarrow> 'a ndarray pytree \<Rightarrow> int \<Rightarrow> int \<Rightarrow> ('a, 'a ndarray pytree) run" where
  "compute_shard fun args in_axes' kwargs out_axes' outputs slice_start slice_size =
     run_bind (apply_fun_to_slice fun args in_axes' kwargs slice_start slice_size)
       (\<lambda>slice_out.
          run_lift (tree_map3 (update_slice_in_dim slice_start) outputs slice_out out_axes'))"

definition mapped_fn ::
  "('a::zero) callable \<Rightarrow> int \<Rightarrow> int option pytree \<Rightarrow> int option pytree \<Rightarrow> 'a callable" where
  "mapped_fn fun shard_size in_axes out_axes args kwargs =
     run_bind (run_lift (expand_axes in_axes args)) (\<lambda>in_axes'.
     run_bind (run_lift (tree_map2 maybe_get_size args in_axes')) (\<lambda>in_sizes.
     run_bind (run_lift (py_max (tree_leaves in_sizes))) (\<lambda>in_size.
     if shard_size = 0 then run_raise ZeroDivisionError
     else
       let num_extra = num_extra_shards in_size shard_size;
           last = last_shard_size in_size shard_size
       in
       run_bind (eval_shape (apply_fun_to_slice fun args in_axes' kwargs 0 last))
         (\<lambda>remainder_shapes.
       run_bind (run_lift (expand_axes out_axes remainder_shapes)) (\<lambda>out_axes'.
       run_bind
         (if num_extra > 0
          then run_bind (eval_shape (apply_fun_to_slice fun args in_axes' kwargs 0 shard_size))
                 (\<lambda>shard_shapes.
                    run_lift (tree_map3 (make_output_shape num_extra)
                      out_axes' shard_shapes remainder_shapes))
          else run_ok remainder_shapes)
         (\<lambda>out_shapes.
       let starts = slice_starts in_size shard_size;
           outputs = map_pytree zeros out_shapes
       in
       run_bind
         (if length starts > 0
          then hk_scan
                 (\<lambda>outputs i. compute_shard fun args in_axes' kwargs out_axes' outputs i shard_size)
                 outputs starts
          else run_ok outputs)
         (\<lambda>outputs.
            if last \<noteq> shard_size
            then compute_shard fun args in_axes' kwargs out_axes' outputs (in_size - last) last
            else run_ok outputs)))))))"

definition sharded_apply ::
  "('a::zero) callable \<Rightarrow> int option \<Rightarrow> int option pytree \<Rightarrow> int option pytree \<Rightarrow> bool
     \<Rightarrow> error + 'a callable" where
  "sharded_apply fun shard_size in_axes out_axes new_out_axes =
     (if new_out_axes then Inl NotImplementedError
      else case shard_size of
             None \<Rightarrow> Inr fun
           | Some s \<Rightarrow> Inr (mapped_fn fun s in_axes out_axes))"

subsection \<open>The subbatch wrapper\<close>

text \<open>
  \<open>run_module\<close> is the closure \<open>inference_subbatch\<close> hands to \<open>sharded_apply\<close>: it takes
  positional arguments only, so a keyword argument is Python's TypeError. The flag
  \<open>running_init\<close> is the value of \<open>hk.running_init()\<close>.
\<close>

fun subtrees :: "'a pytree \<Rightarrow> 'a pytree list" where
  "subtrees (Node ts) = ts"
| "subtrees (Leaf x) = []"

definition run_module :: "'a callable \<Rightarrow> 'a ndarray pytree list \<Rightarrow> 'a callable" where
  "run_module module' nonbatched_args batched_args kwargs =
     (if kwargs \<noteq> [] then run_raise TypeError
      else module' (Node (subtrees batched_args @ nonbatched_args)) [])"

definition inference_subbatch ::
  "bool \<Rightarrow> ('a::zero) callable \<Rightarrow> int \<Rightarrow> 'a ndarray pytree list \<Rightarrow> 'a ndarray pytree list
     \<Rightarrow> int \<Rightarrow> int option \<Rightarrow> ('a, 'a ndarray pytree) run" where
  "inference_subbatch running_init module' subbatch_size batched_args nonbatched_args
       input_subbatch_dim output_subbatch_dim =
     (if \<not> length batched_args > 0 then run_raise AssertionError
      else if running_init then module' (Node (batched_args @ nonbatched_args)) []
      else
        let output_subbatch_dim =
              (case output_subbatch_dim of None \<Rightarrow> input_subbatch_dim | Some d \<Rightarrow> d)
        in
        case sharded_apply (run_module module' nonbatched_args) (Some subbatch_size)
               (Leaf (Some input_subbatch_dim)) (Leaf (Some output_subbatch_dim)) False of
          Inl e \<Rightarrow> run_raise e
        | Inr sharded_module \<Rightarrow> sharded_module (Node batched_args) [])"

subsection \<open>Observations on a call\<close>

text \<open>
  The batch size \<open>mapped_fn\<close> derives from the arguments (its \<open>in_size\<close>), and the two
  projections of a trace: the (start, size) pairs of the shards applied, and the index
  ranges the sequential loop primitive was invoked with.
\<close>

definition batch_size_of :: "int option pytree \<Rightarrow> 'a ndarray pytree \<Rightarrow> error + int" where
  "batch_size_of in_axes args =
     bind_err (expand_axes in_axes args) (\<lambda>in_axes'.
     bind_err (tree_map2 maybe_get_size args in_axes') (\<lambda>in_sizes.
     py_max (tree_leaves in_sizes)))"

fun shard_calls :: "'a event list \<Rightarrow> (int \<times> int) list" where
  "shard_calls [] = []"
| "shard_calls (Apply i n inp # evs) = (i, n) # shard_calls evs"
| "shard_calls (Scan xs # evs) = shard_calls evs"

fun scan_calls :: "'a event list \<Rightarrow> int list list" where
  "scan_calls [] = []"
| "scan_calls (Scan xs # evs) = xs # scan_calls evs"
| "scan_calls (Apply i n inp # evs) = scan_calls evs"

subsection \<open>The stages of a planned call\<close>

text \<open>
  The three steps of \<open>mapped_fn\<close> after the remainder probe, for a batch size \<open>b\<close>
  and a shard size \<open>s\<close>: the shapes of the output buffers, the full shards under
  \<open>hk.scan\<close>, and the remainder shard. They name parts of the body of \<open>mapped_fn\<close>.
\<close>

definition output_shapes ::
  "('a::zero) callable \<Rightarrow> 'a ndarray pytree \<Rightarrow> axis pytree \<Rightarrow> 'a kwargs \<Rightarrow> int \<Rightarrow> int
     \<Rightarrow> axis pytree \<Rightarrow> nat list pytree \<Rightarrow> ('a, nat list pytree) run" where
  "output_shapes fun args ia kwargs b s oa rs =
     (if num_extra_shards b s > 0
      then run_bind (eval_shape (apply_fun_to_slice fun args ia kwargs 0 s))
             (\<lambda>shard_shapes.
                run_lift (tree_map3 (make_output_shape (num_extra_shards b s)) oa shard_shapes rs))
      else run_ok rs)"

definition full_shards ::
  "('a::zero) callable \<Rightarrow> 'a ndarray pytree \<Rightarrow> axis pytree \<Rightarrow> 'a kwargs \<Rightarrow> int \<Rightarrow> int
     \<Rightarrow> axis pytree \<Rightarrow> nat list pytree \<Rightarrow> ('a, 'a ndarray pytree) run" where
  "full_shards fun args ia kwargs b s oa os =
     (if length (slice_starts b s) > 0
      then hk_scan (\<lambda>outputs i. compute_shard fun args ia kwargs oa outputs i s)
             (map_pytree zeros os) (slice_starts b s)
      else run_ok (map_pytree zeros os))"

definition remainder_shard ::
  "('a::zero) callable \<Rightarrow> 'a ndarray pytree \<Rightarrow> axis pytree \<Rightarrow> 'a kwargs \<Rightarrow> int \<Rightarrow> int
     \<Rightarrow> axis pytree \<Rightarrow> 'a ndarray pytree \<Rightarrow> ('a, 'a ndarray pytree) run" where
  "remainder_shard fun args ia kwargs b s oa outputs =
     (if last_shard_size b s \<noteq> s
      then compute_shard fun args ia kwargs oa outputs (b - last_shard_size b s)
             (last_shard_size b s)
      else run_ok outputs)"

text \<open>
  An application recorded in a trace is faithful when its input is the arguments sliced at
  the recorded offset and size.
\<close>

definition sliced_input :: "'a ndarray pytree \<Rightarrow> axis pytree \<Rightarrow> 'a event \<Rightarrow> bool" where
  "sliced_input args ia ev =
     (case ev of
        Scan xs \<Rightarrow> True
      | Apply i n inp \<Rightarrow>
          tree_map2 (\<lambda>array axis. maybe_slice array i n axis) args ia = Inr inp)"

subsection \<open>Example inputs\<close>

definition vector :: "'a list \<Rightarrow> 'a ndarray" where
  "vector xs = Array [] (map Scalar xs)"

definition identity_fn :: "int callable" where
  "identity_fn args kwargs = run_ok args"

fun reverse_array :: "'a ndarray \<Rightarrow> 'a ndarray" where
  "reverse_array (Scalar v) = Scalar v"
| "reverse_array (Array es xs) = Array es (rev xs)"

definition reverse_fn :: "int callable" where
  "reverse_fn args kwargs = run_ok (map_pytree reverse_array args)"

definition first_arg_fn :: "int callable" where
  "first_arg_fn args kwargs = run_ok (Node (take 1 (subtrees args)))"

section \<open>Properties\<close>

subsection \<open>Calls and their traces\<close>

lemma run_bind_alt:
  "run_bind m f =
     (case fst m of Inl e \<Rightarrow> (Inl e, snd m) | Inr x \<Rightarrow> (fst (f x), snd m @ snd (f x)))"
  by (cases m; cases "fst m") (auto simp: run_bind_def split: prod.splits)

lemma run_bind_lift_Inr [simp]: "run_bind (run_lift (Inr x)) f = f x"
  by (simp add: run_bind_alt run_lift_def)

lemma run_bind_lift_Inl [simp]: "run_bind (run_lift (Inl e)) f = (Inl e, [])"
  by (simp add: run_bind_alt run_lift_def)

lemma run_bind_ok [simp]: "run_bind (run_ok x) f = f x"
  by (simp add: run_bind_alt run_ok_def)

lemma run_bind_raise [simp]: "run_bind (run_raise e) f = run_raise e"
  by (simp add: run_bind_alt run_raise_def)

lemma run_simps [simp]:
  "fst (run_ok x) = Inr x" "snd (run_ok x) = []"
  "fst (run_raise e) = Inl e" "snd (run_raise e) = []"
  "fst (run_lift m) = m" "snd (run_lift m) = []"
  "fst (run_emit ev) = Inr ()" "snd (run_emit ev) = [ev]"
  by (simp_all add: run_ok_def run_raise_def run_lift_def run_emit_def)

lemma run_bind_Inr:
  assumes "fst (run_bind m f) = Inr y"
  obtains x where "fst m = Inr x" and "fst (f x) = Inr y"
    and "snd (run_bind m f) = snd m @ snd (f x)"
  using assms by (cases "fst m") (auto simp: run_bind_alt)

lemma run_bind_events:
  assumes "ev \<in> set (snd (run_bind m f))"
  shows "ev \<in> set (snd m) \<or> (\<exists>x. fst m = Inr x \<and> ev \<in> set (snd (f x)))"
  using assms by (cases "fst m") (auto simp: run_bind_alt)

lemma eval_shape_snd [simp]: "snd (eval_shape m) = []"
  by (cases m; cases "fst m") (simp_all add: eval_shape_def)

lemma eval_shape_Inr:
  "fst (eval_shape m) = Inr r \<longleftrightarrow> (\<exists>out. fst m = Inr out \<and> r = map_pytree shape out)"
  by (cases m; cases "fst m") (auto simp: eval_shape_def)

lemma shard_calls_append [simp]: "shard_calls (xs @ ys) = shard_calls xs @ shard_calls ys"
  by (induction xs rule: shard_calls.induct) simp_all

lemma scan_calls_append [simp]: "scan_calls (xs @ ys) = scan_calls xs @ scan_calls ys"
  by (induction xs rule: scan_calls.induct) simp_all

lemma apply_fun_to_slice_trace:
  assumes pure: "\<And>a k. snd (fun a k) = []"
    and ok: "fst (apply_fun_to_slice fun args ia kwargs i n) = Inr r"
  shows "\<exists>inp. tree_map2 (\<lambda>array axis. maybe_slice array i n axis) args ia = Inr inp
           \<and> fst (fun inp kwargs) = Inr r
           \<and> snd (apply_fun_to_slice fun args ia kwargs i n) = [Apply i n inp]"
  using ok unfolding apply_fun_to_slice_def
  by (cases "tree_map2 (\<lambda>array axis. maybe_slice array i n axis) args ia")
     (simp_all add: run_bind_alt pure)

lemma compute_shard_trace:
  assumes pure: "\<And>a k. snd (fun a k) = []"
    and ok: "fst (compute_shard fun args ia kwargs oa outs i n) = Inr r"
  shows "\<exists>inp. snd (compute_shard fun args ia kwargs oa outs i n) = [Apply i n inp]"
proof -
  from ok obtain so where so: "fst (apply_fun_to_slice fun args ia kwargs i n) = Inr so"
    and sn: "snd (compute_shard fun args ia kwargs oa outs i n)
              = snd (apply_fun_to_slice fun args ia kwargs i n)
                @ snd (run_lift (tree_map3 (update_slice_in_dim i) outs so oa) :: ('a, 'a ndarray pytree) run)"
    unfolding compute_shard_def by (rule run_bind_Inr)
  from apply_fun_to_slice_trace[OF pure so] sn show ?thesis by auto
qed

lemma scan_loop_trace:
  assumes pure: "\<And>a k. snd (fun a k) = []"
    and ok: "fst (scan_loop (\<lambda>outputs i. compute_shard fun args ia kwargs oa outputs i n) outs xs) = Inr r"
  shows "shard_calls (snd (scan_loop (\<lambda>outputs i. compute_shard fun args ia kwargs oa outputs i n) outs xs))
           = map (\<lambda>i. (i, n)) xs
       \<and> scan_calls (snd (scan_loop (\<lambda>outputs i. compute_shard fun args ia kwargs oa outputs i n) outs xs)) = []"
  using ok
proof (induction xs arbitrary: outs)
  case Nil
  then show ?case by simp
next
  case (Cons x xs)
  let ?f = "\<lambda>outputs i. compute_shard fun args ia kwargs oa outputs i n"
  from Cons.prems obtain o1 where o1: "fst (?f outs x) = Inr o1"
    and rest: "fst (scan_loop ?f o1 xs) = Inr r"
    and sn: "snd (scan_loop ?f outs (x # xs)) = snd (?f outs x) @ snd (scan_loop ?f o1 xs)"
    by (simp only: scan_loop.simps) (erule run_bind_Inr)
  from compute_shard_trace[OF pure o1] obtain inp where
    "snd (?f outs x) = [Apply x n inp]" by blast
  with Cons.IH[OF rest] sn show ?case by simp
qed

lemma mapped_fn_trace:
  assumes pure: "\<And>a k. snd (fun a k) = []"
    and bs: "batch_size_of in_axes args = Inr b"
    and s: "s \<noteq> 0"
    and ok: "fst (mapped_fn fun s in_axes out_axes args kwargs) = Inr out"
  shows "shard_calls (snd (mapped_fn fun s in_axes out_axes args kwargs))
           = map (\<lambda>i. (i, s)) (slice_starts b s)
             @ (if last_shard_size b s \<noteq> s
                then [(b - last_shard_size b s, last_shard_size b s)] else [])"
    and "scan_calls (snd (mapped_fn fun s in_axes out_axes args kwargs))
           = (if slice_starts b s = [] then [] else [slice_starts b s])"
proof -
  from bs obtain ia sizes where ia: "expand_axes in_axes args = Inr ia"
    and sizes: "tree_map2 maybe_get_size args ia = Inr sizes"
    and b: "py_max (tree_leaves sizes) = Inr b"
    by (auto simp: batch_size_of_def bind_err_def split: sum.splits)
  let ?last = "last_shard_size b s"
  let ?cs = "\<lambda>oa outputs i n. compute_shard fun args ia kwargs oa outputs i n"
  define shapes where "shapes = (\<lambda>oa rs.
     if num_extra_shards b s > 0
     then run_bind (eval_shape (apply_fun_to_slice fun args ia kwargs 0 s))
            (\<lambda>shard_shapes. run_lift (tree_map3 (make_output_shape (num_extra_shards b s))
                      oa shard_shapes rs))
     else (run_ok rs :: ('a, nat list pytree) run))"
  define scan where "scan = (\<lambda>oa os.
     if length (slice_starts b s) > 0
     then hk_scan (\<lambda>outputs i. ?cs oa outputs i s) (map_pytree zeros os) (slice_starts b s)
     else run_ok (map_pytree zeros os))"
  define rem where "rem = (\<lambda>oa outputs.
     if ?last \<noteq> s then ?cs oa outputs (b - ?last) ?last else run_ok outputs)"
  have unfold: "mapped_fn fun s in_axes out_axes args kwargs =
     run_bind (eval_shape (apply_fun_to_slice fun args ia kwargs 0 ?last)) (\<lambda>rs.
     run_bind (run_lift (expand_axes out_axes rs)) (\<lambda>oa.
     run_bind (shapes oa rs) (\<lambda>os.
     run_bind (scan oa os) (\<lambda>outputs. rem oa outputs))))"
    using s by (simp add: mapped_fn_def ia sizes b Let_def shapes_def scan_def rem_def)
  have shapes_snd: "snd (shapes oa rs) = []" for oa rs
    by (cases "fst (eval_shape (apply_fun_to_slice fun args ia kwargs 0 s))")
       (simp_all add: shapes_def run_bind_alt)
  from ok[unfolded unfold] obtain rs oa os outs where
    scan_ok: "fst (scan oa os) = Inr outs"
    and rem_ok: "fst (rem oa outs) = Inr out"
    and tr: "snd (mapped_fn fun s in_axes out_axes args kwargs) = snd (scan oa os) @ snd (rem oa outs)"
    unfolding unfold
    by (elim run_bind_Inr) (simp add: shapes_snd)
  have scan_tr: "shard_calls (snd (scan oa os)) = map (\<lambda>i. (i, s)) (slice_starts b s)
      \<and> scan_calls (snd (scan oa os)) = (if slice_starts b s = [] then [] else [slice_starts b s])"
  proof (cases "slice_starts b s = []")
    case True
    then show ?thesis by (simp add: scan_def)
  next
    case False
    with scan_ok have "fst (scan_loop (\<lambda>outputs i. ?cs oa outputs i s) (map_pytree zeros os)
        (slice_starts b s)) = Inr outs"
      by (simp add: scan_def hk_scan_def run_bind_alt)
    from scan_loop_trace[OF pure this] False show ?thesis
      by (simp add: scan_def hk_scan_def run_bind_alt)
  qed
  have rem_tr: "shard_calls (snd (rem oa outs))
        = (if ?last \<noteq> s then [(b - ?last, ?last)] else [])
      \<and> scan_calls (snd (rem oa outs)) = []"
  proof (cases "?last = s")
    case True
    then show ?thesis by (simp add: rem_def)
  next
    case False
    with rem_ok have "fst (?cs oa outs (b - ?last) ?last) = Inr out" by (simp add: rem_def)
    from compute_shard_trace[OF pure this] False show ?thesis
      by (auto simp: rem_def)
  qed
  show "shard_calls (snd (mapped_fn fun s in_axes out_axes args kwargs))
           = map (\<lambda>i. (i, s)) (slice_starts b s)
             @ (if ?last \<noteq> s then [(b - ?last, ?last)] else [])"
    using scan_tr rem_tr by (simp add: tr)
  show "scan_calls (snd (mapped_fn fun s in_axes out_axes args kwargs))
           = (if slice_starts b s = [] then [] else [slice_starts b s])"
    using scan_tr rem_tr by (simp add: tr)
qed

subsection \<open>Pytrees, leaf by leaf\<close>

lemma bind_err_Inr:
  "bind_err m f = Inr y \<longleftrightarrow> (\<exists>x. m = Inr x \<and> f x = Inr y)"
  by (cases m) (simp_all add: bind_err_def)

lemma bind_err_simps [simp]:
  "bind_err (Inr x) f = f x" "bind_err (Inl e) f = Inl e"
  by (simp_all add: bind_err_def)

lemma tree_leaves_map [simp]: "tree_leaves (map_pytree g t) = map g (tree_leaves t)"
  by (induction t) (simp_all add: map_concat comp_def cong: map_cong)

lemma tree_structure_map [simp]: "tree_structure (map_pytree g t) = tree_structure t"
  by (simp add: tree_structure_def pytree.map_comp comp_def)

lemma tree_structure_simps [simp]:
  "tree_structure (Leaf x) = Leaf ()"
  "tree_structure (Node ts) = Node (map tree_structure ts)"
  by (simp_all add: tree_structure_def)

lemma tree_structure_unit [simp]: "tree_structure (td :: unit pytree) = td"
proof -
  have "(\<lambda>_ :: unit. ()) = id" by (simp add: fun_eq_iff)
  then show ?thesis by (simp add: tree_structure_def pytree.map_id)
qed

lemma leaves_length_structure:
  "length (tree_leaves (tree_structure t)) = length (tree_leaves t)"
  by (simp add: tree_structure_def)

lemma same_structure_length:
  "tree_structure t = tree_structure u \<Longrightarrow> length (tree_leaves t) = length (tree_leaves u)"
  by (metis leaves_length_structure)

lemma same_structure_leaves_eq:
  "tree_structure t = tree_structure u \<Longrightarrow> tree_leaves t = tree_leaves u \<Longrightarrow> t = u"
proof (induction t arbitrary: u)
  case (Leaf x)
  then show ?case by (cases u) simp_all
next
  case (Node ts)
  then obtain us where u: "u = Node us" by (cases u) simp_all
  from Node.prems u have st: "map tree_structure ts = map tree_structure us"
    and lv: "concat (map tree_leaves ts) = concat (map tree_leaves us)" by simp_all
  from Node.IH st lv have "ts = us"
  proof (induction ts arbitrary: us)
    case Nil
    then show ?case by simp
  next
    case (Cons t ts)
    then obtain v vs where us: "us = v # vs" by (cases us) simp_all
    from Cons.prems us have s1: "tree_structure t = tree_structure v"
      and s2: "map tree_structure ts = map tree_structure vs" by simp_all
    have len: "length (tree_leaves t) = length (tree_leaves v)"
      using s1 by (rule same_structure_length)
    from Cons.prems(3) us len have l1: "tree_leaves t = tree_leaves v"
      and l2: "concat (map tree_leaves ts) = concat (map tree_leaves vs)" by simp_all
    have "t = v" using Cons.prems(1) s1 l1 by simp
    moreover have "ts = vs" using Cons.IH[OF _ s2 l2] Cons.prems(1) by simp
    ultimately show ?case using us by simp
  qed
  then show ?case using u by simp
qed

text \<open>What a successful \<open>tree_map2\<close> says, leaf by leaf.\<close>

lemma tree_map2_sound_aux:
  "tree_map2 f t u = Inr r \<Longrightarrow>
     tree_structure r = tree_structure t \<and> tree_structure u = tree_structure t
     \<and> length (tree_leaves t) = length (tree_leaves u)
     \<and> list_all2 (\<lambda>z xy. f (fst xy) (snd xy) = Inr z) (tree_leaves r)
          (zip (tree_leaves t) (tree_leaves u))"
  "trees_map2 f ts us = Inr rs \<Longrightarrow>
     map tree_structure rs = map tree_structure ts
     \<and> map tree_structure us = map tree_structure ts
     \<and> length (concat (map tree_leaves ts)) = length (concat (map tree_leaves us))
     \<and> list_all2 (\<lambda>z xy. f (fst xy) (snd xy) = Inr z) (concat (map tree_leaves rs))
          (zip (concat (map tree_leaves ts)) (concat (map tree_leaves us)))"
proof (induction f t u and f ts us arbitrary: r and rs rule: tree_map2_trees_map2.induct)
  case (1 f x y)
  then show ?case by (auto simp: bind_err_Inr)
next
  case (2 f xs ys)
  then show ?case by (auto simp: bind_err_Inr)
next
  case (6 f x xs y ys)
  from "6.prems" obtain z zs where z: "tree_map2 f x y = Inr z"
    and zs: "trees_map2 f xs ys = Inr zs" and rs: "rs = z # zs"
    by (auto simp: bind_err_Inr)
  from "6.IH"(1)[OF z] "6.IH"(2)[OF zs] rs show ?case
    by (simp add: list_all2_appendI)
qed simp_all

lemma tree_map2_sound:
  assumes "tree_map2 f t u = Inr r"
  shows "tree_structure r = tree_structure t" and "tree_structure u = tree_structure t"
    and "length (tree_leaves r) = length (tree_leaves t)"
    and "length (tree_leaves u) = length (tree_leaves t)"
    and "\<And>j. j < length (tree_leaves t) \<Longrightarrow>
           f (tree_leaves t ! j) (tree_leaves u ! j) = Inr (tree_leaves r ! j)"
proof -
  note a = tree_map2_sound_aux(1)[OF assms]
  show "tree_structure r = tree_structure t" "tree_structure u = tree_structure t"
    using a by simp_all
  show l: "length (tree_leaves u) = length (tree_leaves t)" using a by simp
  show l': "length (tree_leaves r) = length (tree_leaves t)"
    using a by (auto dest: list_all2_lengthD)
  show "f (tree_leaves t ! j) (tree_leaves u ! j) = Inr (tree_leaves r ! j)"
    if "j < length (tree_leaves t)" for j
    using a that l l' by (auto simp: list_all2_conv_all_nth)
qed

lemma tree_map2_complete_aux:
  "tree_structure t = tree_structure u \<Longrightarrow>
     list_all2 (\<lambda>x y. \<exists>z. f x y = Inr z) (tree_leaves t) (tree_leaves u) \<Longrightarrow>
     \<exists>r. tree_map2 f t u = Inr r"
  "map tree_structure ts = map tree_structure us \<Longrightarrow>
     list_all2 (\<lambda>x y. \<exists>z. f x y = Inr z) (concat (map tree_leaves ts))
        (concat (map tree_leaves us)) \<Longrightarrow>
     \<exists>rs. trees_map2 f ts us = Inr rs"
proof (induction f t u and f ts us rule: tree_map2_trees_map2.induct)
  case (1 f x y)
  then show ?case by auto
next
  case (2 f xs ys)
  then show ?case by auto
next
  case (6 f x xs y ys)
  from "6.prems"(1) have s1: "tree_structure x = tree_structure y"
    and s2: "map tree_structure xs = map tree_structure ys" by simp_all
  have len: "length (tree_leaves x) = length (tree_leaves y)"
    using s1 by (rule same_structure_length)
  from "6.prems"(2) len have a1: "list_all2 (\<lambda>x y. \<exists>z. f x y = Inr z) (tree_leaves x) (tree_leaves y)"
    and a2: "list_all2 (\<lambda>x y. \<exists>z. f x y = Inr z) (concat (map tree_leaves xs))
        (concat (map tree_leaves ys))"
    by (simp_all add: list_all2_append)
  from "6.IH"(1)[OF s1 a1] obtain z where z: "tree_map2 f x y = Inr z" by blast
  from "6.IH"(2)[OF s2 a2] obtain zs where "trees_map2 f xs ys = Inr zs" by blast
  with z show ?case by simp
qed simp_all

lemma tree_map2_complete:
  assumes "tree_structure t = tree_structure u"
    and "\<And>j. j < length (tree_leaves t) \<Longrightarrow> \<exists>z. f (tree_leaves t ! j) (tree_leaves u ! j) = Inr z"
  shows "\<exists>r. tree_map2 f t u = Inr r"
proof -
  have "length (tree_leaves t) = length (tree_leaves u)"
    using assms(1) by (rule same_structure_length)
  then have "list_all2 (\<lambda>x y. \<exists>z. f x y = Inr z) (tree_leaves t) (tree_leaves u)"
    using assms(2) by (simp add: list_all2_conv_all_nth)
  with assms(1) show ?thesis by (rule tree_map2_complete_aux(1))
qed

lemma tree_map3_sound:
  assumes "tree_map3 f t u v = Inr r"
  shows "tree_structure r = tree_structure t" and "tree_structure u = tree_structure t"
    and "tree_structure v = tree_structure t"
    and "length (tree_leaves r) = length (tree_leaves t)"
    and "\<And>j. j < length (tree_leaves t) \<Longrightarrow>
           f (tree_leaves t ! j) (tree_leaves u ! j) (tree_leaves v ! j) = Inr (tree_leaves r ! j)"
proof -
  from assms obtain tu where tu: "tree_map2 (\<lambda>x y. Inr (x, y)) t u = Inr tu"
    and r: "tree_map2 (\<lambda>xy z. f (fst xy) (snd xy) z) tu v = Inr r"
    by (auto simp: tree_map3_def bind_err_Inr)
  note a = tree_map2_sound[OF tu] and b = tree_map2_sound[OF r]
  show "tree_structure r = tree_structure t" "tree_structure u = tree_structure t"
    "tree_structure v = tree_structure t" "length (tree_leaves r) = length (tree_leaves t)"
    using a(1-4) b(1-4) by simp_all
  show "f (tree_leaves t ! j) (tree_leaves u ! j) (tree_leaves v ! j) = Inr (tree_leaves r ! j)"
    if "j < length (tree_leaves t)" for j
  proof -
    have "tree_leaves tu ! j = (tree_leaves t ! j, tree_leaves u ! j)"
      using a(5)[OF that] by simp
    moreover have "j < length (tree_leaves tu)" using that a(3) by simp
    ultimately show ?thesis using b(5)[of j] by simp
  qed
qed

lemma tree_map3_complete:
  assumes "tree_structure u = tree_structure t" and "tree_structure v = tree_structure t"
    and "\<And>j. j < length (tree_leaves t) \<Longrightarrow>
           \<exists>z. f (tree_leaves t ! j) (tree_leaves u ! j) (tree_leaves v ! j) = Inr z"
  shows "\<exists>r. tree_map3 f t u v = Inr r"
proof -
  have "\<exists>tu. tree_map2 (\<lambda>x y. Inr (x, y)) t u = Inr tu"
    using assms(1) by (intro tree_map2_complete) simp_all
  then obtain tu where tu: "tree_map2 (\<lambda>x y. Inr (x, y)) t u = Inr tu" ..
  note a = tree_map2_sound[OF tu]
  have "\<exists>r. tree_map2 (\<lambda>xy z. f (fst xy) (snd xy) z) tu v = Inr r"
  proof (rule tree_map2_complete)
    show "tree_structure tu = tree_structure v" using a(1) assms(2) by simp
    fix j assume j: "j < length (tree_leaves tu)"
    then have j': "j < length (tree_leaves t)" using a(3) by simp
    have "tree_leaves tu ! j = (tree_leaves t ! j, tree_leaves u ! j)"
      using a(5)[OF j'] by simp
    with assms(3)[OF j']
    show "\<exists>z. f (fst (tree_leaves tu ! j)) (snd (tree_leaves tu ! j)) (tree_leaves v ! j) = Inr z"
      by simp
  qed
  with tu show ?thesis by (auto simp: tree_map3_def)
qed

subsection \<open>Axis specifications\<close>

lemma flatten_axes_length:
  "flatten_axes td axes = Inr fl \<Longrightarrow> length fl = length (tree_leaves td)"
  "flatten_axes_list tds axs = Inr fl \<Longrightarrow> length fl = length (concat (map tree_leaves tds))"
proof (induction td axes and tds axs arbitrary: fl and fl rule: flatten_axes_flatten_axes_list.induct)
  case (5 t ts a as)
  from "5.prems" obtain xs ys where xs: "flatten_axes t a = Inr xs"
    and ys: "flatten_axes_list ts as = Inr ys" and fl: "fl = xs @ ys"
    by (auto simp: bind_err_Inr)
  from "5.IH"(1)[OF xs] "5.IH"(2)[OF ys] fl show ?case by simp
qed auto

lemma flatten_axes_error:
  "flatten_axes td axes = Inl e \<Longrightarrow> e = ValueError"
  "flatten_axes_list tds axs = Inl e \<Longrightarrow> e = ValueError"
proof (induction td axes and tds axs rule: flatten_axes_flatten_axes_list.induct)
  case (5 t ts a as)
  then show ?case
    by (cases "flatten_axes t a"; cases "flatten_axes_list ts as") simp_all
qed auto

lemma unflatten_complete:
  "length xs = length (tree_leaves td) \<Longrightarrow>
     \<exists>t. unflatten_from td (xs @ rest) = Inr (t, rest)
        \<and> tree_structure t = td \<and> tree_leaves t = xs"
proof (induction td arbitrary: xs rest)
  case (Leaf u)
  then obtain x where "xs = [x]" by (cases xs) simp_all
  then show ?case by simp
next
  case (Node tds)
  have "\<exists>ts. unflatten_all tds (xs @ rest) = Inr (ts, rest)
        \<and> map tree_structure ts = tds \<and> concat (map tree_leaves ts) = xs"
    if "length xs = length (concat (map tree_leaves tds))" for xs
    using Node.IH that
  proof (induction tds arbitrary: xs)
    case Nil
    then show ?case by simp
  next
    case (Cons td tds)
    define n where "n = length (tree_leaves td)"
    define ys where "ys = take n xs"
    define zs where "zs = drop n xs"
    have xs: "xs = ys @ zs" by (simp add: ys_def zs_def)
    have ly: "length ys = length (tree_leaves td)"
      using Cons.prems(2) by (simp add: ys_def n_def)
    have lz: "length zs = length (concat (map tree_leaves tds))"
      using Cons.prems(2) by (simp add: zs_def n_def)
    from Cons.prems(1)[of td ys "zs @ rest"] ly obtain t where
      t: "unflatten_from td (ys @ zs @ rest) = Inr (t, zs @ rest)"
        "tree_structure t = td" "tree_leaves t = ys" by auto
    from Cons.IH[OF _ lz] Cons.prems(1) obtain ts where
      ts: "unflatten_all tds (zs @ rest) = Inr (ts, rest)"
        "map tree_structure ts = tds" "concat (map tree_leaves ts) = zs" by auto
    show ?case using t ts by (simp add: xs)
  qed
  from this[of xs] Node.prems show ?case by auto
qed

lemma expand_axes_Inr:
  "expand_axes axes v = Inr t \<longleftrightarrow>
     (\<exists>fl. flatten_axes (tree_structure v) axes = Inr fl
        \<and> tree_structure t = tree_structure v
        \<and> tree_leaves t = map (\<lambda>x. case x of None \<Rightarrow> PROXY | Some a \<Rightarrow> Axis a) fl)"
proof -
  let ?conv = "\<lambda>x. case x of None \<Rightarrow> PROXY | Some a \<Rightarrow> Axis a"
  show ?thesis
  proof (cases "flatten_axes (tree_structure v) axes")
    case (Inl e)
    then show ?thesis by (simp add: expand_axes_def)
  next
    case (Inr fl)
    have "length (map ?conv fl) = length (tree_leaves (tree_structure v))"
      using flatten_axes_length(1)[OF Inr] by simp
    from unflatten_complete[OF this, of "[]"] obtain t' where
      t': "unflatten_from (tree_structure v) (map ?conv fl) = Inr (t', [])"
        "tree_structure t' = tree_structure v" "tree_leaves t' = map ?conv fl" by auto
    have e: "expand_axes axes v = Inr t'"
      using Inr t'(1) by (simp add: expand_axes_def tree_unflatten_def)
    show ?thesis
    proof
      assume "expand_axes axes v = Inr t"
      with e t' Inr show "\<exists>fl. flatten_axes (tree_structure v) axes = Inr fl
        \<and> tree_structure t = tree_structure v \<and> tree_leaves t = map ?conv fl" by auto
    next
      assume "\<exists>fl. flatten_axes (tree_structure v) axes = Inr fl
        \<and> tree_structure t = tree_structure v \<and> tree_leaves t = map ?conv fl"
      with Inr t' have "t = t'" by (auto intro: same_structure_leaves_eq)
      with e show "expand_axes axes v = Inr t" by simp
    qed
  qed
qed

lemma expand_axes_error: "expand_axes axes v = Inl e \<Longrightarrow> e = ValueError"
proof (cases "flatten_axes (tree_structure v) axes")
  case (Inl e')
  assume "expand_axes axes v = Inl e"
  with Inl flatten_axes_error(1)[OF Inl] show ?thesis by (simp add: expand_axes_def)
next
  case (Inr fl)
  assume a: "expand_axes axes v = Inl e"
  have "length (map (\<lambda>x. case x of None \<Rightarrow> PROXY | Some a \<Rightarrow> Axis a) fl)
      = length (tree_leaves (tree_structure v))"
    using flatten_axes_length(1)[OF Inr] by simp
  from unflatten_complete[OF this, of "[]"] a Inr show ?thesis
    by (auto simp: expand_axes_def tree_unflatten_def)
qed

lemma expand_axes_structure_only:
  "tree_structure v = tree_structure w \<Longrightarrow> expand_axes axes v = expand_axes axes w"
  by (simp add: expand_axes_def)

lemma expand_axes_exists:
  assumes "flatten_axes (tree_structure v) axes = Inr fl"
  shows "\<exists>t. expand_axes axes v = Inr t \<and> tree_structure t = tree_structure v
           \<and> tree_leaves t = map (\<lambda>x. case x of None \<Rightarrow> PROXY | Some a \<Rightarrow> Axis a) fl"
proof (cases "expand_axes axes v")
  case (Inl e)
  have "length (map (\<lambda>x. case x of None \<Rightarrow> PROXY | Some a \<Rightarrow> Axis a) fl)
      = length (tree_leaves (tree_structure v))"
    using flatten_axes_length(1)[OF assms] by simp
  from unflatten_complete[OF this, of "[]"] Inl assms show ?thesis
    by (auto simp: expand_axes_def tree_unflatten_def)
next
  case (Inr t)
  then show ?thesis using assms by (auto simp: expand_axes_Inr)
qed

subsection \<open>The trace of a planned call\<close>

lemma mapped_fn_planned:
  assumes "expand_axes in_axes args = Inr ia"
    and "tree_map2 maybe_get_size args ia = Inr sizes"
    and "py_max (tree_leaves sizes) = Inr b"
    and "s \<noteq> 0"
  shows "mapped_fn fun s in_axes out_axes args kwargs =
     run_bind (eval_shape (apply_fun_to_slice fun args ia kwargs 0 (last_shard_size b s))) (\<lambda>rs.
     run_bind (run_lift (expand_axes out_axes rs)) (\<lambda>oa.
     run_bind (output_shapes fun args ia kwargs b s oa rs) (\<lambda>os.
     run_bind (full_shards fun args ia kwargs b s oa os) (\<lambda>outputs.
       remainder_shard fun args ia kwargs b s oa outputs))))"
  using assms
  by (simp add: mapped_fn_def Let_def output_shapes_def full_shards_def remainder_shard_def)

lemma mapped_fn_unplanned:
  assumes "batch_size_of in_axes args = Inl e \<or> s = 0"
  shows "snd (mapped_fn fun s in_axes out_axes args kwargs) = []"
proof (cases "expand_axes in_axes args")
  case Inl
  then show ?thesis by (simp add: mapped_fn_def)
next
  case ia: (Inr ia)
  show ?thesis
  proof (cases "tree_map2 maybe_get_size args ia")
    case Inl
    then show ?thesis by (simp add: mapped_fn_def ia)
  next
    case sz: (Inr sizes)
    show ?thesis
    proof (cases "py_max (tree_leaves sizes)")
      case Inl
      then show ?thesis by (simp add: mapped_fn_def ia sz)
    next
      case (Inr b)
      with assms ia sz have "s = 0" by (simp add: batch_size_of_def)
      then show ?thesis by (simp add: mapped_fn_def ia sz Inr)
    qed
  qed
qed

lemma output_shapes_snd [simp]: "snd (output_shapes fun args ia kwargs b s oa rs) = []"
  by (cases "fst (eval_shape (apply_fun_to_slice fun args ia kwargs 0 s))")
     (simp_all add: output_shapes_def run_bind_alt)

lemma apply_fun_to_slice_events:
  assumes pure: "\<And>a k. snd (fun a k) = []"
    and "ev \<in> set (snd (apply_fun_to_slice fun args ia kwargs i n))"
  shows "sliced_input args ia ev"
  using assms(2) unfolding apply_fun_to_slice_def
  by (cases "tree_map2 (\<lambda>array axis. maybe_slice array i n axis) args ia")
     (simp_all add: run_bind_alt pure sliced_input_def)

lemma compute_shard_events:
  assumes pure: "\<And>a k. snd (fun a k) = []"
    and "ev \<in> set (snd (compute_shard fun args ia kwargs oa outs i n))"
  shows "sliced_input args ia ev"
  using assms(2) unfolding compute_shard_def
  by (auto dest!: run_bind_events intro: apply_fun_to_slice_events[OF pure])

lemma scan_loop_events:
  assumes pure: "\<And>a k. snd (fun a k) = []"
    and "ev \<in> set (snd (scan_loop (\<lambda>outputs i. compute_shard fun args ia kwargs oa outputs i n) outs xs))"
  shows "sliced_input args ia ev"
  using assms(2)
proof (induction xs arbitrary: outs)
  case Nil
  then show ?case by simp
next
  case (Cons x xs)
  from Cons.prems show ?case
    by (auto dest!: run_bind_events intro: compute_shard_events[OF pure] Cons.IH)
qed

lemma mapped_fn_events:
  assumes pure: "\<And>a k. snd (fun a k) = []"
    and ia: "expand_axes in_axes args = Inr ia"
    and ev: "ev \<in> set (snd (mapped_fn fun s in_axes out_axes args kwargs))"
  shows "sliced_input args ia ev"
proof (cases "batch_size_of in_axes args")
  case (Inl e)
  then show ?thesis using ev mapped_fn_unplanned[of in_axes args e s] by simp
next
  case (Inr b)
  with ia obtain sizes where sizes: "tree_map2 maybe_get_size args ia = Inr sizes"
    and b: "py_max (tree_leaves sizes) = Inr b"
    by (auto simp: batch_size_of_def bind_err_Inr)
  show ?thesis
  proof (cases "s = 0")
    case True
    then show ?thesis using ev mapped_fn_unplanned[of in_axes args _ s] by simp
  next
    case False
    have scan: "sliced_input args ia ev"
      if "ev \<in> set (snd (full_shards fun args ia kwargs b s oa os))" for oa os
      using that
      by (auto simp: full_shards_def hk_scan_def sliced_input_def split: if_splits
          dest!: run_bind_events intro: scan_loop_events[OF pure, unfolded sliced_input_def])
    have rem: "sliced_input args ia ev"
      if "ev \<in> set (snd (remainder_shard fun args ia kwargs b s oa outs))" for oa outs
      using that
      by (auto simp: remainder_shard_def split: if_splits intro: compute_shard_events[OF pure])
    from ev show ?thesis
      unfolding mapped_fn_planned[OF ia sizes b False]
      by (auto dest!: run_bind_events intro: scan rem)
  qed
qed

subsection \<open>The shard plan\<close>

lemma plan_decomp:
  fixes b s :: int
  assumes "1 \<le> b" "1 \<le> s"
  shows "last_shard_size b s = (b - 1) mod s + 1"
    and "b = num_extra_shards b s * s + last_shard_size b s"
    and "(- b) div s = - num_extra_shards b s - 1"
proof -
  define q where "q = (b - 1) div s"
  define r where "r = (b - 1) mod s"
  have r: "0 \<le> r" "r < s" using assms by (simp_all add: r_def)
  have b: "b = s * q + (r + 1)" unfolding q_def r_def by simp
  show l: "last_shard_size b s = (b - 1) mod s + 1"
  proof (cases "r + 1 = s")
    case True
    then have "b = s * (q + 1)" using b by (simp add: algebra_simps)
    then have "b mod s = 0" by simp
    then show ?thesis using True by (simp add: last_shard_size_def r_def)
  next
    case False
    then have "r + 1 < s" using r by simp
    then have "b mod s = r + 1" using b r int_mod_pos_eq[of b s q "r + 1"] by simp
    then show ?thesis using r by (simp add: last_shard_size_def r_def)
  qed
  show "b = num_extra_shards b s * s + last_shard_size b s"
    using b by (simp add: l num_extra_shards_def q_def r_def algebra_simps)
  have "- b = s * (- q - 1) + (s - r - 1)" using b by (simp add: algebra_simps)
  then have "(- b) div s = - q - 1"
    using r int_div_pos_eq[of "- b" s "- q - 1" "s - r - 1"] by simp
  then show "(- b) div s = - num_extra_shards b s - 1"
    by (simp add: num_extra_shards_def q_def)
qed

lemma last_shard_size_bounds:
  fixes b s :: int
  assumes "1 \<le> b" "1 \<le> s"
  shows "0 < last_shard_size b s" and "last_shard_size b s \<le> s"
proof -
  have "0 \<le> (b - 1) mod s" "(b - 1) mod s < s"
    using assms by simp_all
  then show "0 < last_shard_size b s" "last_shard_size b s \<le> s"
    unfolding plan_decomp(1)[OF assms] by linarith+
qed

text \<open>
  C2: for a batch size and a shard size of at least 1, the plan splits the batch into
  \<open>num_extra_shards\<close> shards of the shard size and a last shard of between 1 and
  \<open>shard_size\<close> elements; the last shard is a whole shard when the shard size divides the
  batch size, and \<open>num_extra_shards\<close> is \<open>ceil(batch_size / shard_size) - 1\<close> for a batch
  larger than a shard and 0 otherwise.
\<close>

theorem shard_plan_invariant:
  fixes batch_size shard_size :: int
  assumes "1 \<le> batch_size" and "1 \<le> shard_size"
  shows "batch_size = num_extra_shards batch_size shard_size * shard_size
            + last_shard_size batch_size shard_size
       \<and> 0 < last_shard_size batch_size shard_size
       \<and> last_shard_size batch_size shard_size \<le> shard_size
       \<and> (batch_size mod shard_size = 0 \<longrightarrow> last_shard_size batch_size shard_size = shard_size)
       \<and> num_extra_shards batch_size shard_size =
           (if batch_size > shard_size
            then \<lceil>real_of_int batch_size / real_of_int shard_size\<rceil> - 1 else 0)"
proof -
  have ceil: "\<lceil>real_of_int batch_size / real_of_int shard_size\<rceil> - 1
      = num_extra_shards batch_size shard_size"
    using plan_decomp(3)[OF assms] by (simp add: ceiling_divide_eq_div)
  have small: "num_extra_shards batch_size shard_size = 0" if "\<not> batch_size > shard_size"
    using that assms by (simp add: num_extra_shards_def)
  show ?thesis
    using plan_decomp(2)[OF assms] last_shard_size_bounds[OF assms] ceil small
    by (simp add: last_shard_size_def)
qed

theorem shard_plan_invariant_witness:
  "(1::int) \<le> 10 \<and> (1::int) \<le> 3
   \<and> num_extra_shards 10 3 = 3 \<and> last_shard_size 10 3 = 1
   \<and> (10::int) = 3 * 3 + 1
   \<and> \<lceil>real_of_int 10 / real_of_int 3\<rceil> - 1 = 3"
  using shard_plan_invariant[of 10 3]
  by (simp add: num_extra_shards_def last_shard_size_def)

subsection \<open>Rejected and pass-through configurations\<close>

text \<open>
  C5: with \<open>new_out_axes=True\<close>, \<open>sharded_apply\<close> raises NotImplementedError whatever the
  function, the shard size (\<open>None\<close> included) and the axis specifications are. The
  outcome is the bare error: no callable is returned and the function is not applied.
\<close>

theorem sharded_apply_new_out_axes:
  "sharded_apply fun shard_size in_axes out_axes True = Inl NotImplementedError"
  by (simp add: sharded_apply_def)

text \<open>
  C8: with \<open>shard_size=None\<close> (and \<open>new_out_axes\<close> left false), \<open>sharded_apply\<close> returns
  the function it was given, not a wrapper around it.
\<close>

theorem sharded_apply_no_shard_size:
  "sharded_apply fun None in_axes out_axes False = Inr fun"
  by (simp add: sharded_apply_def)

subsection \<open>The subbatch wrapper\<close>

text \<open>
  C7: \<open>inference_subbatch\<close> with an empty sequence of batched arguments fails its
  assertion, in initialization mode and outside it. The outcome is the same for every
  module and its trace is empty, so the module is not invoked.
\<close>

theorem inference_subbatch_no_batched_args:
  "inference_subbatch running_init module' subbatch_size [] nonbatched_args
     input_subbatch_dim output_subbatch_dim = (Inl AssertionError, [])"
  by (simp add: inference_subbatch_def run_raise_def)

text \<open>
  C10: outside initialization mode and with \<open>output_subbatch_dim\<close> left as \<open>None\<close>,
  \<open>inference_subbatch\<close> is the sharded application of the module with the input axis as
  the output axis as well.
\<close>

theorem inference_subbatch_default_output_dim:
  assumes "0 < length batched_args"
  shows "inference_subbatch False module' subbatch_size batched_args nonbatched_args
           input_subbatch_dim None
         = mapped_fn (run_module module' nonbatched_args) subbatch_size
             (Leaf (Some input_subbatch_dim)) (Leaf (Some input_subbatch_dim))
             (Node batched_args) []"
  using assms by (simp add: inference_subbatch_def sharded_apply_def)

theorem inference_subbatch_default_output_dim_witness:
  "0 < length [Leaf (vector [1, 2, 3 :: int])]
   \<and> inference_subbatch False identity_fn 2 [Leaf (vector [1, 2, 3])] [] 0 None
       = mapped_fn (run_module identity_fn []) 2 (Leaf (Some 0)) (Leaf (Some 0))
           (Node [Leaf (vector [1, 2, 3])]) []
   \<and> fst (inference_subbatch False identity_fn 2 [Leaf (vector [1, 2, 3])] [] 0 None)
       = Inr (Node [Leaf (vector [1, 2, 3])])"
proof -
  have "fst (mapped_fn (run_module identity_fn []) 2 (Leaf (Some 0)) (Leaf (Some 0))
      (Node [Leaf (vector [1, 2, 3])]) []) = Inr (Node [Leaf (vector [1, 2, 3])])"
    by code_simp
  then show ?thesis
    using inference_subbatch_default_output_dim
      [of "[Leaf (vector [1, 2, 3 :: int])]" identity_fn 2 "[]" 0]
    by simp
qed

subsection \<open>The shards the executor applies\<close>

lemma slice_starts_10_3: "slice_starts 10 3 = [0, 3, 6]"
  by (simp add: slice_starts_def arange_def upt_conv_Cons)

lemma slice_starts_9_3: "slice_starts 9 3 = [0, 3, 6]"
  by (simp add: slice_starts_def arange_def upt_conv_Cons)

lemma identity_fn_silent: "snd (identity_fn a k) = []"
  by (simp add: identity_fn_def)

text \<open>
  C3: in a call that returns, with a function that leaves no trace of its own and a
  shard size of 3, a batch of 10 is applied as the shards [0,3), [3,6), [6,9) of the
  sequential loop followed by the remainder shard [9,10), and a batch of 9 as the three
  shards [0,3), [3,6), [6,9) of the loop with no remainder shard.
\<close>

theorem shards_of_10_and_9_by_3:
  assumes "\<And>a k. snd (fun a k) = []"
    and "fst (mapped_fn fun 3 in_axes out_axes args kwargs) = Inr out"
  shows "(batch_size_of in_axes args = Inr 10 \<longrightarrow>
            shard_calls (snd (mapped_fn fun 3 in_axes out_axes args kwargs))
              = [(0, 3), (3, 3), (6, 3), (9, 1)]
          \<and> scan_calls (snd (mapped_fn fun 3 in_axes out_axes args kwargs)) = [[0, 3, 6]])
       \<and> (batch_size_of in_axes args = Inr 9 \<longrightarrow>
            shard_calls (snd (mapped_fn fun 3 in_axes out_axes args kwargs))
              = [(0, 3), (3, 3), (6, 3)]
          \<and> scan_calls (snd (mapped_fn fun 3 in_axes out_axes args kwargs)) = [[0, 3, 6]])"
proof (intro conjI impI)
  assume b: "batch_size_of in_axes args = Inr 10"
  show "shard_calls (snd (mapped_fn fun 3 in_axes out_axes args kwargs))
          = [(0, 3), (3, 3), (6, 3), (9, 1)]"
    using mapped_fn_trace(1)[OF assms(1) b _ assms(2)]
    by (simp add: slice_starts_10_3 last_shard_size_def)
  show "scan_calls (snd (mapped_fn fun 3 in_axes out_axes args kwargs)) = [[0, 3, 6]]"
    using mapped_fn_trace(2)[OF assms(1) b _ assms(2)] by (simp add: slice_starts_10_3)
next
  assume b: "batch_size_of in_axes args = Inr 9"
  show "shard_calls (snd (mapped_fn fun 3 in_axes out_axes args kwargs))
          = [(0, 3), (3, 3), (6, 3)]"
    using mapped_fn_trace(1)[OF assms(1) b _ assms(2)]
    by (simp add: slice_starts_9_3 last_shard_size_def)
  show "scan_calls (snd (mapped_fn fun 3 in_axes out_axes args kwargs)) = [[0, 3, 6]]"
    using mapped_fn_trace(2)[OF assms(1) b _ assms(2)] by (simp add: slice_starts_9_3)
qed

theorem shards_of_10_and_9_by_3_witness:
  "fst (mapped_fn identity_fn 3 (Leaf (Some 0)) (Leaf (Some 0)) (Node [Leaf (vector [0, 1, 2, 3, 4, 5, 6, 7, 8, 9])]) [])
     = Inr (Node [Leaf (vector [0, 1, 2, 3, 4, 5, 6, 7, 8, 9])])
   \<and> batch_size_of (Leaf (Some 0)) (Node [Leaf (vector [0, 1, 2, 3, 4, 5, 6, 7, 8, 9 :: int])]) = Inr 10
   \<and> shard_calls (snd (mapped_fn identity_fn 3 (Leaf (Some 0)) (Leaf (Some 0))
         (Node [Leaf (vector [0, 1, 2, 3, 4, 5, 6, 7, 8, 9])]) []))
       = [(0, 3), (3, 3), (6, 3), (9, 1)]
   \<and> fst (mapped_fn identity_fn 3 (Leaf (Some 0)) (Leaf (Some 0)) (Node [Leaf (vector [0, 1, 2, 3, 4, 5, 6, 7, 8])]) [])
     = Inr (Node [Leaf (vector [0, 1, 2, 3, 4, 5, 6, 7, 8])])
   \<and> batch_size_of (Leaf (Some 0)) (Node [Leaf (vector [0, 1, 2, 3, 4, 5, 6, 7, 8 :: int])]) = Inr 9
   \<and> shard_calls (snd (mapped_fn identity_fn 3 (Leaf (Some 0)) (Leaf (Some 0))
         (Node [Leaf (vector [0, 1, 2, 3, 4, 5, 6, 7, 8])]) []))
       = [(0, 3), (3, 3), (6, 3)]"
proof -
  have ok10: "fst (mapped_fn identity_fn 3 (Leaf (Some 0)) (Leaf (Some 0))
      (Node [Leaf (vector [0, 1, 2, 3, 4, 5, 6, 7, 8, 9])]) [])
     = Inr (Node [Leaf (vector [0, 1, 2, 3, 4, 5, 6, 7, 8, 9])])"
    by code_simp
  have b10: "batch_size_of (Leaf (Some 0))
      (Node [Leaf (vector [0, 1, 2, 3, 4, 5, 6, 7, 8, 9 :: int])]) = Inr 10"
    by code_simp
  have ok9: "fst (mapped_fn identity_fn 3 (Leaf (Some 0)) (Leaf (Some 0))
      (Node [Leaf (vector [0, 1, 2, 3, 4, 5, 6, 7, 8])]) [])
     = Inr (Node [Leaf (vector [0, 1, 2, 3, 4, 5, 6, 7, 8])])"
    by code_simp
  have b9: "batch_size_of (Leaf (Some 0))
      (Node [Leaf (vector [0, 1, 2, 3, 4, 5, 6, 7, 8 :: int])]) = Inr 9"
    by code_simp
  show ?thesis
    using shards_of_10_and_9_by_3[OF identity_fn_silent ok10]
      shards_of_10_and_9_by_3[OF identity_fn_silent ok9]
    by (simp add: ok10 b10 ok9 b9)
qed

lemma slice_starts_small:
  assumes "1 \<le> b" "b < s"
  shows "slice_starts b s = []"
proof -
  have "(0 - (b - s + 1)) div s = 0"
    using assms by simp
  then show ?thesis by (simp add: slice_starts_def arange_def)
qed

lemma slice_starts_equal:
  assumes "1 \<le> s"
  shows "slice_starts s s = [0]"
proof -
  have "(- 1) div s = - 1"
    using assms int_div_pos_eq[of "- 1" s "- 1" "s - 1"] by simp
  then show ?thesis by (simp add: slice_starts_def arange_def)
qed

text \<open>
  C4, as the code has it: in a call that returns, with a function that leaves no trace of
  its own, a batch smaller than the shard size is applied as one remainder shard, the
  whole batch from offset 0, and \<open>hk.scan\<close> is not invoked. A batch of exactly the shard
  size is one full shard: \<open>hk.scan\<close> is invoked with the index range [0] and there is no
  remainder shard.
\<close>

theorem small_batch_shards:
  assumes "\<And>a k. snd (fun a k) = []"
    and "fst (mapped_fn fun shard_size in_axes out_axes args kwargs) = Inr out"
    and "batch_size_of in_axes args = Inr batch_size"
    and "1 \<le> batch_size"
  shows "(batch_size < shard_size \<longrightarrow>
            scan_calls (snd (mapped_fn fun shard_size in_axes out_axes args kwargs)) = []
          \<and> shard_calls (snd (mapped_fn fun shard_size in_axes out_axes args kwargs))
              = [(0, batch_size)])
       \<and> (batch_size = shard_size \<longrightarrow>
            scan_calls (snd (mapped_fn fun shard_size in_axes out_axes args kwargs)) = [[0]]
          \<and> shard_calls (snd (mapped_fn fun shard_size in_axes out_axes args kwargs))
              = [(0, shard_size)])"
proof (intro conjI impI)
  assume lt: "batch_size < shard_size"
  then have s: "shard_size \<noteq> 0" using assms(4) by simp
  have l: "last_shard_size batch_size shard_size = batch_size"
    using lt assms(4) by (simp add: last_shard_size_def)
  show "scan_calls (snd (mapped_fn fun shard_size in_axes out_axes args kwargs)) = []"
    using mapped_fn_trace(2)[OF assms(1) assms(3) s assms(2)]
    by (simp add: slice_starts_small[OF assms(4) lt])
  show "shard_calls (snd (mapped_fn fun shard_size in_axes out_axes args kwargs))
          = [(0, batch_size)]"
    using mapped_fn_trace(1)[OF assms(1) assms(3) s assms(2)] lt
    by (simp add: slice_starts_small[OF assms(4) lt] l)
next
  assume eq: "batch_size = shard_size"
  then have s: "shard_size \<noteq> 0" "1 \<le> shard_size" using assms(4) by simp_all
  have l: "last_shard_size batch_size shard_size = shard_size"
    using eq by (simp add: last_shard_size_def)
  show "scan_calls (snd (mapped_fn fun shard_size in_axes out_axes args kwargs)) = [[0]]"
    using mapped_fn_trace(2)[OF assms(1) assms(3) s(1) assms(2)]
    by (simp add: eq slice_starts_equal[OF s(2)])
  show "shard_calls (snd (mapped_fn fun shard_size in_axes out_axes args kwargs))
          = [(0, shard_size)]"
    using mapped_fn_trace(1)[OF assms(1) assms(3) s(1) assms(2)] l
    by (simp add: eq slice_starts_equal[OF s(2)])
qed

theorem small_batch_shards_witness:
  "fst (mapped_fn identity_fn 3 (Leaf (Some 0)) (Leaf (Some 0)) (Node [Leaf (vector [0, 1])]) [])
     = Inr (Node [Leaf (vector [0, 1])])
   \<and> batch_size_of (Leaf (Some 0)) (Node [Leaf (vector [0, 1 :: int])]) = Inr 2
   \<and> (1 :: int) \<le> 2 \<and> (2 :: int) < 3
   \<and> scan_calls (snd (mapped_fn identity_fn 3 (Leaf (Some 0)) (Leaf (Some 0))
         (Node [Leaf (vector [0, 1])]) [])) = []
   \<and> shard_calls (snd (mapped_fn identity_fn 3 (Leaf (Some 0)) (Leaf (Some 0))
         (Node [Leaf (vector [0, 1])]) [])) = [(0, 2)]"
proof -
  have ok: "fst (mapped_fn identity_fn 3 (Leaf (Some 0)) (Leaf (Some 0))
      (Node [Leaf (vector [0, 1])]) []) = Inr (Node [Leaf (vector [0, 1])])"
    by code_simp
  have b: "batch_size_of (Leaf (Some 0)) (Node [Leaf (vector [0, 1 :: int])]) = Inr 2"
    by code_simp
  show ?thesis
    using small_batch_shards[OF identity_fn_silent ok b] by (simp add: ok b)
qed

text \<open>
  The claim as it was stated, for a batch of exactly the shard size: with a batch of 3
  and a shard size of 3 the sequential loop is invoked, with the index range [0], and
  the only shard applied is that full shard.
\<close>

theorem batch_equal_shard_size_runs_scan:
  "batch_size_of (Leaf (Some 0)) (Node [Leaf (vector [0, 1, 2 :: int])]) = Inr 3
   \<and> mapped_fn identity_fn 3 (Leaf (Some 0)) (Leaf (Some 0)) (Node [Leaf (vector [0, 1, 2])]) []
       = (Inr (Node [Leaf (vector [0, 1, 2])]),
          [Scan [0], Apply 0 3 (Node [Leaf (vector [0, 1, 2])])])
   \<and> scan_calls (snd (mapped_fn identity_fn 3 (Leaf (Some 0)) (Leaf (Some 0))
         (Node [Leaf (vector [0, 1, 2])]) [])) \<noteq> []"
  by code_simp

subsection \<open>Broadcast arguments\<close>

text \<open>
  C9: where the flattened axis specification has \<open>None\<close> for an argument leaf, the expanded
  specification has \<open>PROXY\<close> for it, and every application of a function that leaves no
  trace of its own receives that leaf as it was passed, whole and unchanged.
\<close>

theorem broadcast_leaf_passed_whole:
  assumes pure: "\<And>a k. snd (fun a k) = []"
    and fl: "flatten_axes (tree_structure args) in_axes = Inr flat_axes"
    and p: "p < length flat_axes"
    and none: "flat_axes ! p = None"
  shows "(\<exists>in_axes'. expand_axes in_axes args = Inr in_axes' \<and> tree_leaves in_axes' ! p = PROXY)
       \<and> (\<forall>i n inp.
            Apply i n inp \<in> set (snd (mapped_fn fun shard_size in_axes out_axes args kwargs))
            \<longrightarrow> tree_leaves inp ! p = tree_leaves args ! p)"
proof -
  from expand_axes_exists[OF fl] obtain ia where ia: "expand_axes in_axes args = Inr ia"
    and lv: "tree_leaves ia = map (\<lambda>x. case x of None \<Rightarrow> PROXY | Some a \<Rightarrow> Axis a) flat_axes"
    by blast
  have proxy: "tree_leaves ia ! p = PROXY" using p none by (simp add: lv)
  have len: "p < length (tree_leaves args)"
    using p flatten_axes_length(1)[OF fl] by (simp add: leaves_length_structure)
  have "tree_leaves inp ! p = tree_leaves args ! p"
    if "Apply i n inp \<in> set (snd (mapped_fn fun shard_size in_axes out_axes args kwargs))"
    for i n inp
  proof -
    from mapped_fn_events[OF pure ia that]
    have "tree_map2 (\<lambda>array axis. maybe_slice array i n axis) args ia = Inr inp"
      by (simp add: sliced_input_def)
    from tree_map2_sound(5)[OF this len] proxy show ?thesis
      by (simp add: maybe_slice_def)
  qed
  with ia proxy show ?thesis by blast
qed

theorem broadcast_leaf_passed_whole_witness:
  "(\<forall>a k. snd (first_arg_fn a k) = [])
   \<and> flatten_axes (tree_structure (Node [Leaf (vector [1, 2, 3 :: int]), Leaf (vector [7, 8])]))
         (Node [Leaf (Some 0), Leaf None]) = Inr [Some 0, None]
   \<and> (1 :: nat) < length [Some (0 :: int), None] \<and> [Some (0 :: int), None] ! 1 = None
   \<and> expand_axes (Node [Leaf (Some 0), Leaf None])
         (Node [Leaf (vector [1, 2, 3 :: int]), Leaf (vector [7, 8])])
       = Inr (Node [Leaf (Axis 0), Leaf PROXY])
   \<and> mapped_fn first_arg_fn 2 (Node [Leaf (Some 0), Leaf None]) (Leaf (Some 0))
         (Node [Leaf (vector [1, 2, 3]), Leaf (vector [7, 8])]) []
       = (Inr (Node [Leaf (vector [1, 2, 3])]),
          [Scan [0],
           Apply 0 2 (Node [Leaf (vector [1, 2]), Leaf (vector [7, 8])]),
           Apply 2 1 (Node [Leaf (vector [3]), Leaf (vector [7, 8])])])
   \<and> tree_leaves (Node [Leaf (vector [3 :: int]), Leaf (vector [7, 8])]) ! 1
       = tree_leaves (Node [Leaf (vector [1, 2, 3 :: int]), Leaf (vector [7, 8])]) ! 1"
proof -
  have pure: "snd (first_arg_fn a k) = []" for a k
    by (simp add: first_arg_fn_def)
  have fl: "flatten_axes (tree_structure (Node [Leaf (vector [1, 2, 3 :: int]), Leaf (vector [7, 8])]))
         (Node [Leaf (Some 0), Leaf None]) = Inr [Some 0, None]"
    by code_simp
  have ex: "expand_axes (Node [Leaf (Some 0), Leaf None])
         (Node [Leaf (vector [1, 2, 3 :: int]), Leaf (vector [7, 8])])
       = Inr (Node [Leaf (Axis 0), Leaf PROXY])"
    by code_simp
  have run: "mapped_fn first_arg_fn 2 (Node [Leaf (Some 0), Leaf None]) (Leaf (Some 0))
         (Node [Leaf (vector [1, 2, 3]), Leaf (vector [7, 8])]) []
       = (Inr (Node [Leaf (vector [1, 2, 3])]),
          [Scan [0],
           Apply 0 2 (Node [Leaf (vector [1, 2]), Leaf (vector [7, 8])]),
           Apply 2 1 (Node [Leaf (vector [3]), Leaf (vector [7, 8])])])"
    by code_simp
  show ?thesis
    using broadcast_leaf_passed_whole
        [of first_arg_fn "Node [Leaf (vector [1, 2, 3]), Leaf (vector [7, 8])]"
          "Node [Leaf (Some 0), Leaf None]" "[Some 0, None]" 1 2 "Leaf (Some 0)" "[]",
         OF pure fl]
    by (simp add: pure fl ex run)
qed

lemma foldl_max_replicate: "foldl max (a :: int) (replicate k a) = a"
  by (induction k) simp_all

text \<open>
  C6, as the code has it: a call with no argument leaves at all fails with ValueError
  before anything is applied, since the maximum of no sizes is taken. A call with argument
  leaves that are all broadcast is not rejected: its batch size is computed as -1.
\<close>

theorem no_batched_leaves:
  shows "(tree_leaves args = [] \<longrightarrow>
            mapped_fn fun shard_size in_axes out_axes args kwargs = (Inl ValueError, []))
       \<and> (\<forall>in_axes'. expand_axes in_axes args = Inr in_axes' \<and> tree_leaves args \<noteq> []
              \<and> list_all (\<lambda>a. a = PROXY) (tree_leaves in_axes')
            \<longrightarrow> batch_size_of in_axes args = Inr (- 1))"
proof (intro conjI impI allI)
  assume empty: "tree_leaves args = []"
  show "mapped_fn fun shard_size in_axes out_axes args kwargs = (Inl ValueError, [])"
  proof (cases "expand_axes in_axes args")
    case (Inl e)
    with expand_axes_error[OF Inl] show ?thesis by (simp add: mapped_fn_def)
  next
    case (Inr ia)
    then have st: "tree_structure args = tree_structure ia" by (auto simp: expand_axes_Inr)
    have "\<exists>sizes. tree_map2 maybe_get_size args ia = Inr sizes"
      using st by (rule tree_map2_complete) (simp add: empty)
    then obtain sizes where sizes: "tree_map2 maybe_get_size args ia = Inr sizes" ..
    have "tree_leaves sizes = []"
      using tree_map2_sound(3)[OF sizes] empty by simp
    then show ?thesis by (simp add: mapped_fn_def Inr sizes py_max_def)
  qed
next
  fix ia
  assume a: "expand_axes in_axes args = Inr ia \<and> tree_leaves args \<noteq> []
      \<and> list_all (\<lambda>a. a = PROXY) (tree_leaves ia)"
  then have ia: "expand_axes in_axes args = Inr ia" and ne: "tree_leaves args \<noteq> []"
    and proxy: "list_all (\<lambda>a. a = PROXY) (tree_leaves ia)" by simp_all
  have st: "tree_structure args = tree_structure ia" using ia by (auto simp: expand_axes_Inr)
  have len: "length (tree_leaves ia) = length (tree_leaves args)"
    using st by (metis same_structure_length)
  have px: "tree_leaves ia ! j = PROXY" if "j < length (tree_leaves args)" for j
    using proxy that len by (simp add: list_all_length)
  have "\<exists>sizes. tree_map2 maybe_get_size args ia = Inr sizes"
    using st by (rule tree_map2_complete) (simp add: px maybe_get_size_def)
  then obtain sizes where sizes: "tree_map2 maybe_get_size args ia = Inr sizes" ..
  have "tree_leaves sizes ! j = - 1" if "j < length (tree_leaves args)" for j
    using tree_map2_sound(5)[OF sizes that] px[OF that] by (simp add: maybe_get_size_def)
  then have "tree_leaves sizes = replicate (length (tree_leaves args)) (- 1)"
    using tree_map2_sound(3)[OF sizes] by (simp add: list_eq_iff_nth_eq)
  moreover obtain k where "length (tree_leaves args) = Suc k"
    using ne by (cases "tree_leaves args") simp_all
  ultimately have "py_max (tree_leaves sizes) = Inr (- 1)"
    by (simp add: py_max_def foldl_max_replicate)
  then show "batch_size_of in_axes args = Inr (- 1)"
    by (simp add: batch_size_of_def ia sizes)
qed

theorem no_batched_leaves_witness:
  "tree_leaves (Node [] :: int ndarray pytree) = []
   \<and> mapped_fn identity_fn 2 (Leaf (Some 0)) (Leaf (Some 0)) (Node []) [] = (Inl ValueError, [])
   \<and> expand_axes (Leaf None) (Node [Leaf (vector [1, 2, 3 :: int])]) = Inr (Node [Leaf PROXY])
   \<and> tree_leaves (Node [Leaf (vector [1, 2, 3 :: int])]) \<noteq> []
   \<and> list_all (\<lambda>a. a = PROXY) (tree_leaves (Node [Leaf PROXY]))
   \<and> batch_size_of (Leaf None) (Node [Leaf (vector [1, 2, 3 :: int])]) = Inr (- 1)"
proof -
  have ex: "expand_axes (Leaf None) (Node [Leaf (vector [1, 2, 3 :: int])]) = Inr (Node [Leaf PROXY])"
    by code_simp
  show ?thesis
    using no_batched_leaves[of "Node []" identity_fn 2 "Leaf (Some 0)" "Leaf (Some 0)" "[]"]
      no_batched_leaves[of "Node [Leaf (vector [1, 2, 3 :: int])]" identity_fn 2 "Leaf None"
        "Leaf (Some 0)" "[]"]
    by (simp add: ex)
qed

text \<open>
  The claim as it was stated: with one argument, broadcast, and a shard size of 2 the call
  returns the result of the function on the unsliced argument; no error is raised.
\<close>

theorem all_broadcast_call_returns:
  "expand_axes (Leaf None) (Node [Leaf (vector [1, 2, 3 :: int])]) = Inr (Node [Leaf PROXY])
   \<and> mapped_fn identity_fn 2 (Leaf None) (Leaf (Some 0)) (Node [Leaf (vector [1, 2, 3])]) []
       = (Inr (Node [Leaf (vector [1, 2, 3])]),
          [Apply (- 2) 1 (Node [Leaf (vector [1, 2, 3])])])"
  by code_simp

end
